theory Spec2Isabelle
  imports Main
begin

section \<open>The failure monitor of complainer (monitor/monitor.go)\<close>

text \<open>
  The monitor polls a cluster for failed tasks, decides for each failure whether it is
  new and recent enough to be reported, and hands every accepted failure to all the
  configured reporters. The only state it keeps between runs is the map \<open>recent\<close>
  from failure IDs to the time the task finished.

  This theory embeds \<open>Run\<close>, \<open>cleanupRecent\<close>, \<open>checkFailure\<close> and \<open>processFailure\<close>
  as HOL functions. Mutation of the monitor is explicit state passing; the collaborators
  (cluster, uploader, label parser, reporters) and the wall clock are inputs of a run;
  every call to a collaborator and every log line is an event of the run's trace.
\<close>

subsection \<open>Time\<close>

text \<open>
  A \<open>time.Time\<close> is modelled as the number of nanoseconds since the zero time of Go
  (January 1, year 1, 00:00:00 UTC), so that \<open>IsZero\<close> is equality with 0. A
  \<open>time.Duration\<close> is a signed 64-bit count of nanoseconds; \<open>Time.Sub\<close> saturates at the
  largest and the smallest duration. \<open>time.Since t\<close> is \<open>time.Now().Sub(t)\<close>: the clock
  reading \<open>now\<close> is an argument. Monotonic clock readings and locations are not modelled.
\<close>

type_synonym time = int
type_synonym duration = int

definition maxDuration :: duration where
  "maxDuration = 2 ^ 63 - 1"

definition minDuration :: duration where
  "minDuration = - (2 ^ 63)"

definition Sub :: "time \<Rightarrow> time \<Rightarrow> duration" where
  "Sub t u =
     (let d = t - u
      in if maxDuration < d then maxDuration
         else if d < minDuration then minDuration
         else d)"

definition Since :: "time \<Rightarrow> time \<Rightarrow> duration" where
  "Since now t = Sub now t"

definition IsZero :: "time \<Rightarrow> bool" where
  "IsZero t = (t = 0)"

definition Second :: duration where
  "Second = 1000000000"

definition Minute :: duration where
  "Minute = 60 * Second"

text \<open>\<open>timeout\<close>: the time before purging old seen tasks.\<close>

definition timeout :: duration where
  "timeout = Minute"

subsection \<open>Data\<close>

text \<open>
  Of a \<open>complainer.Failure\<close> the monitor reads the ID, the finishing time and the
  labels; the other fields of the struct live in the record's extension.
\<close>

type_synonym error = string

record Failure =
  ID :: string
  Finished :: time
  Labels :: "(string \<times> string) list"

text \<open>
  \<open>label.NewLabels(m.name, failure.Labels)\<close> and \<open>reporter.NewConfigProvider(labels, n, i)\<close>
  only pack their arguments.
\<close>

type_synonym labels = "string \<times> (string \<times> string) list"
type_synonym config = "labels \<times> string \<times> string"

text \<open>A reporter is its \<open>Report\<close> method; \<open>None\<close> is the nil error.\<close>

type_synonym reporter = "Failure \<Rightarrow> config \<Rightarrow> string \<Rightarrow> string \<Rightarrow> error option"

text \<open>
  The map \<open>recent\<close> is \<open>None\<close> while it is nil. \<open>reporters\<close> is a Go map, ranged over in
  an unspecified order: the list gives the entries in the order the range visits them.
  The fields \<open>mesos\<close> and \<open>uploader\<close> are collaborators, found in the \<open>World\<close> below.
\<close>

type_synonym cache = "string \<rightharpoonup> time"

record Monitor =
  name :: string
  reporters :: "(string \<times> reporter) list"
  recent :: "cache option"

text \<open>
  What one run reads from outside the monitor: the results of the collaborators'
  methods, and the clock. \<open>check_clock k\<close> is the reading of \<open>time.Now\<close> in the \<open>k\<close>-th
  iteration of the loop over the failures, \<open>cleanup_clock n\<close> the reading when
  \<open>cleanupRecent\<close> visits the entry of \<open>n\<close> (the range visits every entry once, in an
  unspecified order).
\<close>

record World =
  Failures :: "error + Failure list"
  Logs :: "Failure \<Rightarrow> error + string \<times> string"
  Upload :: "Failure \<Rightarrow> string \<Rightarrow> string \<Rightarrow> error + string \<times> string"
  Instances :: "labels \<Rightarrow> string \<Rightarrow> string list"
  check_clock :: "nat \<Rightarrow> time"
  cleanup_clock :: "string \<Rightarrow> time"

text \<open>
  The trace of a run: the calls of \<open>checkFailure\<close> with their results, the calls to the
  collaborators with their arguments, and the lines written to the log.
\<close>

datatype event =
    CheckFailure Failure bool
  | LogReporting Failure
  | CallLogs Failure
  | CallUpload Failure string string
  | CallReport string string Failure string string
  | LogCannotReport string string string error
  | LogErrorReporting string error

subsection \<open>The monitor\<close>

definition NewMonitor :: "string \<Rightarrow> (string \<times> reporter) list \<Rightarrow> Monitor" where
  "NewMonitor nm rs = \<lparr>name = nm, reporters = rs, recent = None\<rparr>"

text \<open>Reading a Go map at a missing key gives the zero value.\<close>

definition lookup :: "cache \<Rightarrow> string \<Rightarrow> time" where
  "lookup c n = (case c n of None \<Rightarrow> 0 | Some ts \<Rightarrow> ts)"

text \<open>The guard of \<open>checkFailure\<close>: \<open>!m.recent[failure.ID].IsZero()\<close>.\<close>

definition seen :: "cache \<Rightarrow> string \<Rightarrow> bool" where
  "seen c n = (\<not> IsZero (lookup c n))"

definition checkFailure :: "cache \<Rightarrow> Failure \<Rightarrow> bool \<Rightarrow> time \<Rightarrow> bool \<times> cache" where
  "checkFailure c failure first now =
     (if seen c (ID failure) then (False, c)
      else let c' = c(ID failure \<mapsto> Finished failure)
           in if timeout div 2 < Since now (Finished failure) then (False, c')
              else if first then (False, c')
              else (True, c'))"

text \<open>
  \<open>cleanupRecent\<close> ranges over the map and deletes the entry it visits when it is older
  than \<open>timeout\<close>. Deleting the visited entry leaves the others as they are, so the loop
  is the pointwise filter of the map.
\<close>

definition cleanupRecent :: "cache \<Rightarrow> (string \<Rightarrow> time) \<Rightarrow> cache" where
  "cleanupRecent c clock =
     (\<lambda>n. case c n of
            None \<Rightarrow> None
          | Some ts \<Rightarrow> if timeout < Since (clock n) ts then None else Some ts)"

fun report_instances ::
  "labels \<Rightarrow> string \<Rightarrow> reporter \<Rightarrow> Failure \<Rightarrow> string \<Rightarrow> string \<Rightarrow> string list \<Rightarrow> event list"
where
  "report_instances ls n r failure stdoutURL stderrURL [] = []"
| "report_instances ls n r failure stdoutURL stderrURL (i # is) =
     CallReport n i failure stdoutURL stderrURL #
     (case r failure (ls, n, i) stdoutURL stderrURL of
        None \<Rightarrow> []
      | Some err \<Rightarrow> [LogCannotReport n i (ID failure) err]) @
     report_instances ls n r failure stdoutURL stderrURL is"

fun report_all ::
  "World \<Rightarrow> labels \<Rightarrow> Failure \<Rightarrow> string \<Rightarrow> string \<Rightarrow> (string \<times> reporter) list \<Rightarrow> event list"
where
  "report_all w ls failure stdoutURL stderrURL [] = []"
| "report_all w ls failure stdoutURL stderrURL ((n, r) # rs) =
     report_instances ls n r failure stdoutURL stderrURL (Instances w ls n) @
     report_all w ls failure stdoutURL stderrURL rs"

definition processFailure :: "Monitor \<Rightarrow> World \<Rightarrow> Failure \<Rightarrow> error option \<times> event list" where
  "processFailure m w failure =
     (case Logs w failure of
        Inl err \<Rightarrow>
          (Some (''cannot get stdout and stderr urls from mesos: '' @ err),
           [LogReporting failure, CallLogs failure])
      | Inr (stdoutURL, stderrURL) \<Rightarrow>
          (case Upload w failure stdoutURL stderrURL of
             Inl err \<Rightarrow>
               (Some (''cannot get stdout and stderr urls from uploader: '' @ err),
                [LogReporting failure, CallLogs failure,
                 CallUpload failure stdoutURL stderrURL])
           | Inr (stdoutURL', stderrURL') \<Rightarrow>
               (None,
                [LogReporting failure, CallLogs failure,
                 CallUpload failure stdoutURL stderrURL] @
                report_all w (name m, Labels failure) failure stdoutURL' stderrURL'
                  (reporters m))))"

text \<open>
  The body of the \<open>if\<close> in the loop of \<open>Run\<close>: the failure is processed, and an error
  of \<open>processFailure\<close> is logged.
\<close>

definition dispatch :: "Monitor \<Rightarrow> World \<Rightarrow> Failure \<Rightarrow> event list" where
  "dispatch m w failure =
     (case processFailure m w failure of
        (None, evs) \<Rightarrow> evs
      | (Some err, evs) \<Rightarrow> evs @ [LogErrorReporting (ID failure) err])"

text \<open>The loop of \<open>Run\<close> over the polled failures; \<open>k\<close> counts the iterations.\<close>

fun run_loop ::
  "Monitor \<Rightarrow> World \<Rightarrow> bool \<Rightarrow> cache \<Rightarrow> nat \<Rightarrow> Failure list \<Rightarrow> cache \<times> event list"
where
  "run_loop m w first c k [] = (c, [])"
| "run_loop m w first c k (failure # failures) =
     (case checkFailure c failure first (check_clock w k) of
        (ok, c') \<Rightarrow>
          (case run_loop m w first c' (Suc k) failures of
             (c'', evs) \<Rightarrow>
               (c'',
                CheckFailure failure ok # (if ok then dispatch m w failure else []) @ evs)))"

definition Run :: "Monitor \<Rightarrow> World \<Rightarrow> error option \<times> Monitor \<times> event list" where
  "Run m w =
     (case Failures w of
        Inl err \<Rightarrow> (Some err, m, [])
      | Inr failures \<Rightarrow>
          (case (case recent m of None \<Rightarrow> (Map.empty, True) | Some c \<Rightarrow> (c, False)) of
             (c, first) \<Rightarrow>
               (case run_loop m w first c 0 failures of
                  (c', evs) \<Rightarrow>
                    (None, m\<lparr>recent := Some (cleanupRecent c' (cleanup_clock w))\<rparr>, evs))))"

text \<open>The life of a process: one world per run, the traces of the runs in a row.\<close>

fun runs :: "Monitor \<Rightarrow> World list \<Rightarrow> Monitor \<times> event list" where
  "runs m [] = (m, [])"
| "runs m (w # ws) =
     (case Run m w of
        (err, m', evs) \<Rightarrow> (case runs m' ws of (m'', evs') \<Rightarrow> (m'', evs @ evs')))"

subsection \<open>Reading a trace\<close>

text \<open>The results of \<open>checkFailure\<close> for the failures with ID \<open>i\<close>, in the order of the calls.\<close>

fun decisions :: "string \<Rightarrow> event list \<Rightarrow> bool list" where
  "decisions i [] = []"
| "decisions i (CheckFailure failure ok # evs) =
     (if ID failure = i then ok # decisions i evs else decisions i evs)"
| "decisions i (_ # evs) = decisions i evs"

text \<open>How often \<open>processFailure\<close> started on a failure with ID \<open>i\<close>.\<close>

fun dispatches :: "string \<Rightarrow> event list \<Rightarrow> nat" where
  "dispatches i [] = 0"
| "dispatches i (LogReporting failure # evs) =
     (if ID failure = i then Suc (dispatches i evs) else dispatches i evs)"
| "dispatches i (_ # evs) = dispatches i evs"

text \<open>The reporter and the instance of every call of \<open>Report\<close>.\<close>

fun report_calls :: "event list \<Rightarrow> (string \<times> string) list" where
  "report_calls [] = []"
| "report_calls (CallReport n i failure stdoutURL stderrURL # evs) = (n, i) # report_calls evs"
| "report_calls (_ # evs) = report_calls evs"

text \<open>The failures \<open>checkFailure\<close> was called on, and those it accepted, in the order of the calls.\<close>

fun checked :: "event list \<Rightarrow> Failure list" where
  "checked [] = []"
| "checked (CheckFailure failure ok # evs) = failure # checked evs"
| "checked (_ # evs) = checked evs"

fun accepted :: "event list \<Rightarrow> Failure list" where
  "accepted [] = []"
| "accepted (CheckFailure failure ok # evs) =
     (if ok then failure # accepted evs else accepted evs)"
| "accepted (_ # evs) = accepted evs"

text \<open>The trace without the log lines about failed \<open>Report\<close> calls.\<close>

fun quiet :: "event list \<Rightarrow> event list" where
  "quiet [] = []"
| "quiet (LogCannotReport n i x err # evs) = quiet evs"
| "quiet (e # evs) = e # quiet evs"

text \<open>The entry of the monitor's map for \<open>n\<close>, if the map has one.\<close>

definition cached :: "Monitor \<Rightarrow> string \<Rightarrow> time option" where
  "cached m n = (case recent m of None \<Rightarrow> None | Some c \<Rightarrow> c n)"

subsection \<open>Assumptions on the environment\<close>

definition polled :: "World \<Rightarrow> Failure list" where
  "polled w = (case Failures w of Inl err \<Rightarrow> [] | Inr failures \<Rightarrow> failures)"

text \<open>
  \<open>clock_ok t ws\<close>: no reading of the clock in the runs \<open>ws\<close> is earlier than \<open>t\<close>, and no
  reading of a run is earlier than a reading \<open>cleanupRecent\<close> took in an earlier run. A
  clock that never runs backwards satisfies it.
\<close>

fun clock_ok :: "time \<Rightarrow> World list \<Rightarrow> bool" where
  "clock_ok t [] = True"
| "clock_ok t (w # ws) =
     ((\<forall>k. t \<le> check_clock w k) \<and>
      (\<forall>n. t \<le> cleanup_clock w n \<and> clock_ok (cleanup_clock w n) ws))"

subsection \<open>Invariants\<close>

text \<open>
  The ID \<open>i\<close>, whose failures all finished at \<open>F\<close>, is settled at time \<open>t\<close>: its entry is in
  the map and counts as seen, or the map does not count it as seen and the failure is
  stale at \<open>t\<close> already. It is fresh while the monitor has never recorded it.
\<close>

definition settled :: "string \<Rightarrow> time \<Rightarrow> time \<Rightarrow> cache \<Rightarrow> bool" where
  "settled i F t c = (c i = Some F \<and> F \<noteq> 0 \<or> \<not> seen c i \<and> timeout div 2 < t - F)"

definition settled_monitor :: "string \<Rightarrow> time \<Rightarrow> time \<Rightarrow> Monitor \<Rightarrow> bool" where
  "settled_monitor i F t m = (case recent m of None \<Rightarrow> False | Some c \<Rightarrow> settled i F t c)"

definition fresh :: "string \<Rightarrow> Monitor \<Rightarrow> bool" where
  "fresh i m = (case recent m of None \<Rightarrow> True | Some c \<Rightarrow> c i = None)"

subsection \<open>Example inputs\<close>

text \<open>2020-01-01 00:00:00 UTC.\<close>

definition t2020 :: time where
  "t2020 = 63713433600 * Second"

definition task :: "string \<Rightarrow> time \<Rightarrow> Failure" where
  "task n t = \<lparr>ID = n, Finished = t, Labels = []\<rparr>"

definition ok_reporter :: reporter where
  "ok_reporter failure cfg stdoutURL stderrURL = None"

definition bad_reporter :: reporter where
  "bad_reporter failure cfg stdoutURL stderrURL = Some ''connection refused''"

text \<open>
  A world in which the poll returns \<open>failures\<close>, every reading of the clock is \<open>now\<close>, the
  logs of \<open>task-3\<close> cannot be found, and the labels configure the instance \<open>team-a\<close> for
  every reporter but \<open>email\<close>.
\<close>

definition world :: "Failure list \<Rightarrow> time \<Rightarrow> World" where
  "world failures now =
     \<lparr>Failures = Inr failures,
      Logs = (\<lambda>failure. if ID failure = ''task-3'' then Inl ''not found''
                        else Inr (''stdout'', ''stderr'')),
      Upload = (\<lambda>failure stdoutURL stderrURL. Inr (''s3/'' @ stdoutURL, ''s3/'' @ stderrURL)),
      Instances = (\<lambda>ls n. if n = ''email'' then [] else [''team-a'']),
      check_clock = (\<lambda>k. now),
      cleanup_clock = (\<lambda>n. now)\<rparr>"

definition down :: "time \<Rightarrow> World" where
  "down now = (world [] now)\<lparr>Failures := Inl ''mesos is down''\<rparr>"

text \<open>
  A monitor after its first run, which polled nothing. Its reporter \<open>slack\<close> fails on
  every call.
\<close>

definition started :: Monitor where
  "started =
     fst (snd (Run
       (NewMonitor ''default''
          [(''slack'', bad_reporter), (''email'', ok_reporter), (''pagerduty'', ok_reporter)])
       (world [] t2020)))"

text \<open>
  A monitor with the same reporters after a first run that polled one failure, which
  had just finished.
\<close>

definition seasoned :: Monitor where
  "seasoned =
     fst (snd (Run
       (NewMonitor ''default''
          [(''slack'', bad_reporter), (''email'', ok_reporter), (''pagerduty'', ok_reporter)])
       (world [task ''task-0'' t2020] t2020)))"

text \<open>Three failures that finished a minute after that run; the logs of the second are lost.\<close>

definition three_tasks :: "Failure list" where
  "three_tasks =
     [task ''task-1'' (t2020 + 60 * Second), task ''task-3'' (t2020 + 60 * Second),
      task ''task-2'' (t2020 + 60 * Second)]"

text \<open>
  A life of four runs: an empty first run; a run that polls the same new failure twice;
  a run, 140 seconds later, that polls it again and evicts its entry; and a run that
  polls it once more.
\<close>

definition lifetime :: "World list" where
  "lifetime =
     [world [] t2020,
      world [task ''task-1'' (t2020 + 60 * Second), task ''task-1'' (t2020 + 60 * Second)]
        (t2020 + 60 * Second),
      world [task ''task-1'' (t2020 + 60 * Second)] (t2020 + 200 * Second),
      world [task ''task-1'' (t2020 + 60 * Second)] (t2020 + 300 * Second)]"

section \<open>Properties\<close>

subsection \<open>Time and the two thresholds\<close>

lemma timeout_val: "timeout = 60000000000"
  by (simp add: timeout_def Minute_def Second_def)

lemma half_timeout_val: "timeout div 2 = 30000000000"
  by (simp add: timeout_val)

lemma t2020_val: "t2020 = 63713433600000000000"
  by (simp add: t2020_def Second_def)

lemma Since_less_iff:
  assumes "minDuration \<le> d" "d < maxDuration"
  shows "d < Since now t \<longleftrightarrow> d < now - t"
  using assms by (auto simp: Since_def Sub_def Let_def)

lemma timeout_less_Since: "timeout < Since now t \<longleftrightarrow> timeout < now - t"
  by (rule Since_less_iff) (simp_all add: timeout_val minDuration_def maxDuration_def)

lemma half_timeout_less_Since: "timeout div 2 < Since now t \<longleftrightarrow> timeout div 2 < now - t"
  by (rule Since_less_iff) (simp_all add: half_timeout_val minDuration_def maxDuration_def)

subsection \<open>The map of recent failures\<close>

lemma seen_iff: "seen c n \<longleftrightarrow> (\<exists>ts. c n = Some ts \<and> ts \<noteq> 0)"
  by (auto simp: seen_def lookup_def IsZero_def split: option.splits)

lemma checkFailure_seen: "seen c (ID failure) \<Longrightarrow> checkFailure c failure first now = (False, c)"
  by (simp add: checkFailure_def)

lemma checkFailure_unseen:
  "\<not> seen c (ID failure) \<Longrightarrow>
   checkFailure c failure first now =
     (\<not> timeout div 2 < now - Finished failure \<and> \<not> first, c(ID failure \<mapsto> Finished failure))"
  by (simp add: checkFailure_def Let_def half_timeout_less_Since)

lemma checkFailure_dom: "ID failure \<in> dom (snd (checkFailure c failure first now))"
  by (cases "seen c (ID failure)") (auto simp: checkFailure_seen checkFailure_unseen seen_iff)

lemma checkFailure_other:
  "n \<noteq> ID failure \<Longrightarrow> snd (checkFailure c failure first now) n = c n"
  by (cases "seen c (ID failure)") (auto simp: checkFailure_seen checkFailure_unseen)

lemma checkFailure_first: "fst (checkFailure c failure True now) = False"
  by (cases "seen c (ID failure)") (auto simp: checkFailure_seen checkFailure_unseen)

lemma cleanupRecent_apply:
  "cleanupRecent c clock n =
     (case c n of None \<Rightarrow> None | Some ts \<Rightarrow> if timeout < clock n - ts then None else Some ts)"
  by (simp add: cleanupRecent_def timeout_less_Since split: option.splits)

lemma run_loop_Cons:
  "run_loop m w first c k (failure # failures) =
     (fst (run_loop m w first (snd (checkFailure c failure first (check_clock w k))) (Suc k) failures),
      CheckFailure failure (fst (checkFailure c failure first (check_clock w k))) #
      (if fst (checkFailure c failure first (check_clock w k)) then dispatch m w failure else []) @
      snd (run_loop m w first (snd (checkFailure c failure first (check_clock w k))) (Suc k) failures))"
  by (simp split: prod.splits)

lemma Run_Inl: "Failures w = Inl err \<Longrightarrow> Run m w = (Some err, m, [])"
  by (simp add: Run_def)

lemma Run_Inr:
  "Failures w = Inr failures \<Longrightarrow>
   Run m w =
     (None,
      m\<lparr>recent := Some (cleanupRecent
         (fst (run_loop m w (recent m = None) (case recent m of None \<Rightarrow> Map.empty | Some c \<Rightarrow> c) 0 failures))
         (cleanup_clock w))\<rparr>,
      snd (run_loop m w (recent m = None) (case recent m of None \<Rightarrow> Map.empty | Some c \<Rightarrow> c) 0 failures))"
  by (auto simp: Run_def split: option.splits prod.splits)

lemma runs_Cons:
  "runs m (w # ws) =
     (fst (runs (fst (snd (Run m w))) ws),
      snd (snd (Run m w)) @ snd (runs (fst (snd (Run m w))) ws))"
  by (simp split: prod.splits)

subsection \<open>A failed poll\<close>

text \<open>
  Claim C6. If the poll of the cluster fails, the run returns that error and leaves
  the monitor as it was: no entry of the map is added or removed, a map that was nil
  stays nil (so the next run is still the first one), and the trace is empty: nothing
  was checked, dispatched or cleaned up.
\<close>

theorem poll_error_leaves_monitor:
  assumes "Failures w = Inl err"
  shows "Run m w = (Some err, m, [])"
  using assms by (simp add: Run_def)

theorem poll_error_leaves_monitor_witness:
  "Run (NewMonitor ''default'' [(''slack'', ok_reporter)]) (down t2020) =
     (Some ''mesos is down'', NewMonitor ''default'' [(''slack'', ok_reporter)], []) \<and>
   recent (fst (snd (Run (NewMonitor ''default'' [(''slack'', ok_reporter)]) (down t2020)))) = None"
  using poll_error_leaves_monitor
    [of "down t2020" "''mesos is down''" "NewMonitor ''default'' [(''slack'', ok_reporter)]"]
  by (simp add: down_def NewMonitor_def)

subsection \<open>Stale failures\<close>

text \<open>
  Claim C3. A failure that finished more than \<open>timeout / 2\<close> (30 seconds) before the
  reading of the clock at its check is rejected, on the first run and on every other,
  and its ID is in the map after the check; the iteration of the loop adds the call of
  \<open>checkFailure\<close> to the trace and nothing else, so \<open>processFailure\<close> is not called.
\<close>

theorem stale_failure_rejected:
  assumes "timeout div 2 < check_clock w k - Finished failure"
  shows "\<exists>c'. checkFailure c failure first (check_clock w k) = (False, c') \<and>
           ID failure \<in> dom c' \<and>
           run_loop m w first c k (failure # failures) =
             (fst (run_loop m w first c' (Suc k) failures),
              CheckFailure failure False # snd (run_loop m w first c' (Suc k) failures))"
proof (cases "seen c (ID failure)")
  case True
  then show ?thesis
    by (auto simp: checkFailure_seen seen_iff split: prod.splits)
next
  case False
  with assms show ?thesis
    by (auto simp: checkFailure_unseen split: prod.splits)
qed

theorem stale_failure_rejected_witness:
  "\<exists>c'. checkFailure Map.empty (task ''task-1'' (t2020 - 31 * Second)) False
           (check_clock (world [task ''task-1'' (t2020 - 31 * Second)] t2020) 0) = (False, c') \<and>
         ID (task ''task-1'' (t2020 - 31 * Second)) \<in> dom c' \<and>
         run_loop (NewMonitor ''default'' [(''slack'', ok_reporter)])
             (world [task ''task-1'' (t2020 - 31 * Second)] t2020) False Map.empty 0
             [task ''task-1'' (t2020 - 31 * Second)] =
           (c', [CheckFailure (task ''task-1'' (t2020 - 31 * Second)) False])"
  using stale_failure_rejected
    [of "world [task ''task-1'' (t2020 - 31 * Second)] t2020" 0
        "task ''task-1'' (t2020 - 31 * Second)" Map.empty False
        "NewMonitor ''default'' [(''slack'', ok_reporter)]" "[]"]
  by (simp add: world_def task_def half_timeout_val Second_def)

subsection \<open>Eviction\<close>

text \<open>
  Claim C5, as stated: an entry inserted at time \<open>T\<close> is absent at any eviction check
  performed at time \<open>T + timeout\<close> or later, and present at any check before. It is not:
  \<open>cleanupRecent\<close> deletes an entry only when it is older than \<open>timeout\<close>, so the entry of
  a failure that finished at \<open>T\<close> and was recorded at \<open>T\<close> is still in the map after a
  check at exactly \<open>T + timeout\<close>. And the age is counted from the time the failure
  finished, not from the time of the insertion: the entry of a failure that finished
  45 seconds before it was recorded is gone after a check 20 seconds later.
\<close>

theorem eviction_at_timeout_counterexample:
  "snd (checkFailure Map.empty (task ''task-1'' t2020) False t2020) ''task-1'' = Some t2020 \<and>
   cleanupRecent (snd (checkFailure Map.empty (task ''task-1'' t2020) False t2020))
     (\<lambda>n. t2020 + timeout) ''task-1'' = Some t2020 \<and>
   snd (checkFailure Map.empty (task ''task-2'' (t2020 - 45 * Second)) False t2020) ''task-2'' =
     Some (t2020 - 45 * Second) \<and>
   cleanupRecent (snd (checkFailure Map.empty (task ''task-2'' (t2020 - 45 * Second)) False t2020))
     (\<lambda>n. t2020 + 20 * Second) ''task-2'' = None"
  by (simp add: checkFailure_unseen seen_iff cleanupRecent_apply task_def timeout_val Second_def)

text \<open>
  Claim C5, amended. The timestamp of an entry is the time its failure finished. An
  entry with the timestamp \<open>T\<close> is absent after every eviction check at a time later than
  \<open>T + timeout\<close> and present after every check at \<open>T + timeout\<close> or before: eviction
  removes exactly the entries whose timestamp is older than \<open>now - timeout\<close>, and adds
  none.
\<close>

theorem eviction_threshold:
  "cleanupRecent c clock n =
     (case c n of
        None \<Rightarrow> None
      | Some T \<Rightarrow> if T + timeout < clock n then None else Some T) \<and>
   cleanupRecent c clock n =
     (case c n of
        None \<Rightarrow> None
      | Some T \<Rightarrow> if T < clock n - timeout then None else Some T)"
  by (auto simp: cleanupRecent_apply split: option.splits)

subsection \<open>Presence in the map is a timestamp other than zero\<close>

text \<open>
  Claim C10. The map counts an ID as seen exactly when it has an entry whose timestamp
  is not the zero time. The entry of a failure that finished at a time other than zero
  makes every later check of that ID return false and leave the map as it is. An entry
  with the zero time is as good as none: the check gives the same result as on the map
  without the entry, and records the failure again. A failure that finished at the
  zero time is never accepted all the same, the clock being more than 30 seconds past
  the zero time.
\<close>

theorem zero_time_is_absence:
  "(seen c n \<longleftrightarrow> (\<exists>ts. c n = Some ts \<and> ts \<noteq> 0)) \<and>
   (Finished failure \<noteq> 0 \<longrightarrow> c (ID failure) = Some (Finished failure) \<longrightarrow>
      ID failure' = ID failure \<longrightarrow> checkFailure c failure' first' now' = (False, c)) \<and>
   (c (ID failure) = Some 0 \<longrightarrow>
      checkFailure c failure first now =
        checkFailure (c(ID failure := None)) failure first now \<and>
      snd (checkFailure c failure first now) = c(ID failure \<mapsto> Finished failure)) \<and>
   (Finished failure = 0 \<longrightarrow> timeout div 2 < now \<longrightarrow>
      fst (checkFailure c failure first now) = False)"
proof (intro conjI impI)
  show "seen c n \<longleftrightarrow> (\<exists>ts. c n = Some ts \<and> ts \<noteq> 0)" by (rule seen_iff)
next
  assume "Finished failure \<noteq> 0" "c (ID failure) = Some (Finished failure)"
    "ID failure' = ID failure"
  then have "seen c (ID failure')" by (simp add: seen_iff)
  then show "checkFailure c failure' first' now' = (False, c)" by (rule checkFailure_seen)
next
  assume "c (ID failure) = Some 0"
  then have "\<not> seen c (ID failure)" "\<not> seen (c(ID failure := None)) (ID failure)"
    by (simp_all add: seen_iff)
  then show
    "checkFailure c failure first now = checkFailure (c(ID failure := None)) failure first now"
    "snd (checkFailure c failure first now) = c(ID failure \<mapsto> Finished failure)"
    by (simp_all add: checkFailure_unseen)
next
  assume "Finished failure = 0" "timeout div 2 < now"
  then show "fst (checkFailure c failure first now) = False"
    by (cases "seen c (ID failure)") (simp_all add: checkFailure_seen checkFailure_unseen)
qed

theorem zero_time_is_absence_witness:
  "checkFailure (Map.empty(''task-1'' \<mapsto> t2020)) (task ''task-1'' t2020) False (t2020 + Second) =
     (False, Map.empty(''task-1'' \<mapsto> t2020)) \<and>
   \<not> seen (Map.empty(''task-0'' \<mapsto> 0)) ''task-0'' \<and>
   checkFailure (Map.empty(''task-0'' \<mapsto> 0)) (task ''task-0'' 0) False t2020 =
     checkFailure ((Map.empty(''task-0'' \<mapsto> 0))(''task-0'' := None)) (task ''task-0'' 0) False t2020 \<and>
   snd (checkFailure (Map.empty(''task-0'' \<mapsto> 0)) (task ''task-0'' 0) False t2020) =
     (Map.empty(''task-0'' \<mapsto> 0))(''task-0'' \<mapsto> 0) \<and>
   fst (checkFailure (Map.empty(''task-0'' \<mapsto> 0)) (task ''task-0'' 0) False t2020) = False"
  using zero_time_is_absence
    [of "Map.empty(''task-1'' \<mapsto> t2020)" "''task-1''" "task ''task-1'' t2020"
        "task ''task-1'' t2020" False "t2020 + Second" False t2020]
    zero_time_is_absence
    [of "Map.empty(''task-0'' \<mapsto> 0)" "''task-0''" "task ''task-0'' 0"
        "task ''task-0'' 0" False t2020 False t2020]
  by (simp add: task_def t2020_val half_timeout_val checkFailure_unseen checkFailure_seen seen_iff)

subsection \<open>One evaluation for each ID\<close>

text \<open>
  Claim C4, as stated: whatever the outcome of its first evaluation, an ID is not
  evaluated a second time while its entry remains in the map. It is, when the failure
  finished at the zero time: the entry is in the map, the guard of \<open>checkFailure\<close> does
  not count it as seen, and a later failure with the same ID passes the guard, is
  recorded over the entry and can be accepted.
\<close>

theorem evaluated_twice_counterexample:
  "snd (checkFailure Map.empty (task ''task-0'' 0) False t2020) ''task-0'' = Some 0 \<and>
   \<not> seen (snd (checkFailure Map.empty (task ''task-0'' 0) False t2020)) ''task-0'' \<and>
   checkFailure (snd (checkFailure Map.empty (task ''task-0'' 0) False t2020))
       (task ''task-0'' t2020) False t2020 =
     (True, Map.empty(''task-0'' \<mapsto> t2020))"
  by (simp add: checkFailure_unseen seen_iff task_def t2020_val half_timeout_val)

text \<open>
  Claim C4, amended. Every path of \<open>checkFailure\<close> (accepted, stale, first run) leaves
  the ID in the map. For a failure that finished at a time other than zero, the ID is
  not evaluated again while its entry remains in the map: on every map with that entry,
  a check of the same ID returns false at the guard and leaves the map as it is.
\<close>

theorem evaluated_once:
  "ID failure \<in> dom (snd (checkFailure c failure first now)) \<and>
   (Finished failure \<noteq> 0 \<longrightarrow>
      d (ID failure) = snd (checkFailure c failure first now) (ID failure) \<longrightarrow>
      ID failure' = ID failure \<longrightarrow>
      seen d (ID failure') \<and> checkFailure d failure' first' now' = (False, d))"
proof (intro conjI impI)
  show "ID failure \<in> dom (snd (checkFailure c failure first now))"
    by (rule checkFailure_dom)
next
  assume nz: "Finished failure \<noteq> 0"
    and d: "d (ID failure) = snd (checkFailure c failure first now) (ID failure)"
    and i: "ID failure' = ID failure"
  have "seen (snd (checkFailure c failure first now)) (ID failure)"
    using nz by (cases "seen c (ID failure)") (simp_all add: checkFailure_seen checkFailure_unseen seen_iff)
  with d i show "seen d (ID failure')" by (simp add: seen_iff)
  then show "checkFailure d failure' first' now' = (False, d)" by (rule checkFailure_seen)
qed

theorem evaluated_once_witness:
  "ID (task ''task-1'' (t2020 - 40 * Second)) \<in>
     dom (snd (checkFailure Map.empty (task ''task-1'' (t2020 - 40 * Second)) False t2020)) \<and>
   seen (Map.empty(''task-1'' \<mapsto> t2020 - 40 * Second)) ''task-1'' \<and>
   checkFailure (Map.empty(''task-1'' \<mapsto> t2020 - 40 * Second))
       (task ''task-1'' (t2020 - 40 * Second)) False (t2020 + Second) =
     (False, Map.empty(''task-1'' \<mapsto> t2020 - 40 * Second))"
  using evaluated_once
    [of "task ''task-1'' (t2020 - 40 * Second)" Map.empty False t2020
        "Map.empty(''task-1'' \<mapsto> t2020 - 40 * Second)"
        "task ''task-1'' (t2020 - 40 * Second)" False "t2020 + Second"]
  by (simp add: task_def t2020_val Second_def checkFailure_unseen seen_iff half_timeout_val)

subsection \<open>The two thresholds\<close>

text \<open>
  Claim C9. The staleness threshold is \<open>timeout / 2\<close> and the eviction threshold is
  \<open>timeout\<close>. So when a failure is accepted at the clock reading \<open>now\<close> (a reading more
  than 30 seconds past the zero time), then on every map that has the entry recorded
  for it: an eviction check at \<open>now + timeout / 2\<close> or before keeps the entry; a check of
  any failure leaves the entry as it is; and a check of a failure with the same ID
  returns false at the guard, before and after such an eviction check.
\<close>

theorem accepted_stays_cached:
  assumes "checkFailure c failure first now = (True, c')"
    and "timeout div 2 < now"
    and "d (ID failure) = c' (ID failure)"
    and "clock (ID failure) \<le> now + timeout div 2"
  shows "d (ID failure) = Some (Finished failure) \<and>
         cleanupRecent d clock (ID failure) = Some (Finished failure) \<and>
         snd (checkFailure d failure' first' now') (ID failure) = Some (Finished failure) \<and>
         (ID failure' = ID failure \<longrightarrow>
            checkFailure d failure' first' now' = (False, d) \<and>
            checkFailure (cleanupRecent d clock) failure' first' now' =
              (False, cleanupRecent d clock))"
proof -
  from assms(1) have ns: "\<not> seen c (ID failure)"
    by (auto simp: checkFailure_seen)
  with assms(1) have c': "c' = c(ID failure \<mapsto> Finished failure)"
    and fresh: "\<not> timeout div 2 < now - Finished failure"
    by (simp_all add: checkFailure_unseen)
  from c' assms(3) have d: "d (ID failure) = Some (Finished failure)" by simp
  from fresh assms(2) have nz: "Finished failure \<noteq> 0" by auto
  from fresh assms(4) have keep: "\<not> timeout < clock (ID failure) - Finished failure"
    using timeout_val by simp
  with d have e: "cleanupRecent d clock (ID failure) = Some (Finished failure)"
    by (simp add: cleanupRecent_apply)
  from d nz have sd: "seen d (ID failure)" by (simp add: seen_iff)
  from e nz have se: "seen (cleanupRecent d clock) (ID failure)" by (simp add: seen_iff)
  have "snd (checkFailure d failure' first' now') (ID failure) = Some (Finished failure)"
  proof (cases "ID failure' = ID failure")
    case True
    with sd d show ?thesis by (simp add: checkFailure_seen)
  next
    case False
    with d show ?thesis by (simp add: checkFailure_other)
  qed
  with d e sd se show ?thesis
    by (auto simp: checkFailure_seen)
qed

theorem accepted_stays_cached_witness:
  "checkFailure Map.empty (task ''task-1'' (t2020 - 30 * Second)) False t2020 =
     (True, Map.empty(''task-1'' \<mapsto> t2020 - 30 * Second)) \<and>
   cleanupRecent (Map.empty(''task-1'' \<mapsto> t2020 - 30 * Second)) (\<lambda>n. t2020 + 30 * Second)
     ''task-1'' = Some (t2020 - 30 * Second) \<and>
   checkFailure (cleanupRecent (Map.empty(''task-1'' \<mapsto> t2020 - 30 * Second))
       (\<lambda>n. t2020 + 30 * Second)) (task ''task-1'' (t2020 - 30 * Second)) False (t2020 + 30 * Second) =
     (False, cleanupRecent (Map.empty(''task-1'' \<mapsto> t2020 - 30 * Second)) (\<lambda>n. t2020 + 30 * Second))"
proof -
  have a: "checkFailure Map.empty (task ''task-1'' (t2020 - 30 * Second)) False t2020 =
     (True, Map.empty(''task-1'' \<mapsto> t2020 - 30 * Second))"
    by (simp add: checkFailure_unseen seen_iff task_def t2020_val Second_def half_timeout_val)
  have b: "timeout div 2 < t2020" by (simp add: t2020_val half_timeout_val)
  have c: "(\<lambda>n::string. t2020 + 30 * Second) (ID (task ''task-1'' (t2020 - 30 * Second)))
             \<le> t2020 + timeout div 2"
    by (simp add: half_timeout_val Second_def)
  from accepted_stays_cached
    [of Map.empty "task ''task-1'' (t2020 - 30 * Second)" False t2020
        "Map.empty(''task-1'' \<mapsto> t2020 - 30 * Second)"
        "Map.empty(''task-1'' \<mapsto> t2020 - 30 * Second)"
        "\<lambda>n. t2020 + 30 * Second"
        "task ''task-1'' (t2020 - 30 * Second)" False "t2020 + 30 * Second"] a b c
  show ?thesis by (simp add: task_def)
qed

subsection \<open>Traces\<close>

lemma decisions_append: "decisions i (xs @ ys) = decisions i xs @ decisions i ys"
  by (induction i xs rule: decisions.induct) auto

lemma dispatches_append: "dispatches i (xs @ ys) = dispatches i xs + dispatches i ys"
  by (induction i xs rule: dispatches.induct) auto

lemma report_calls_append: "report_calls (xs @ ys) = report_calls xs @ report_calls ys"
  by (induction xs rule: report_calls.induct) auto

lemma quiet_append: "quiet (xs @ ys) = quiet xs @ quiet ys"
  by (induction xs rule: quiet.induct) auto

lemma decisions_report_instances:
  "decisions i (report_instances ls n r failure out err is) = []"
  by (induction "is") (auto simp: decisions_append split: option.splits)

lemma decisions_report_all:
  "decisions i (report_all w ls failure out err rs) = []"
  by (induction rs) (auto simp: decisions_append decisions_report_instances)

lemma decisions_processFailure: "decisions i (snd (processFailure m w failure)) = []"
  by (auto simp: processFailure_def decisions_report_all split: sum.splits prod.splits)

lemma decisions_dispatch: "decisions i (dispatch m w failure) = []"
  using decisions_processFailure [of i m w failure]
  by (auto simp: dispatch_def decisions_append split: prod.splits option.splits)

lemma dispatches_report_instances:
  "dispatches i (report_instances ls n r failure out err is) = 0"
  by (induction "is") (auto simp: dispatches_append split: option.splits)

lemma dispatches_report_all:
  "dispatches i (report_all w ls failure out err rs) = 0"
  by (induction rs) (auto simp: dispatches_append dispatches_report_instances)

lemma dispatches_processFailure:
  "dispatches i (snd (processFailure m w failure)) = (if ID failure = i then 1 else 0)"
  by (auto simp: processFailure_def dispatches_report_all split: sum.splits prod.splits)

lemma dispatches_dispatch:
  "dispatches i (dispatch m w failure) = (if ID failure = i then 1 else 0)"
  using dispatches_processFailure [of i m w failure]
  by (auto simp: dispatch_def dispatches_append split: prod.splits option.splits)

lemma dispatches_run_loop:
  "dispatches i (snd (run_loop m w first c k failures)) =
   length (filter (\<lambda>ok. ok) (decisions i (snd (run_loop m w first c k failures))))"
proof (induction failures arbitrary: c k)
  case Nil
  then show ?case by simp
next
  case (Cons failure failures)
  then show ?case
    unfolding run_loop_Cons
    by (simp add: dispatches_append decisions_append dispatches_dispatch decisions_dispatch)
qed

lemma dispatches_Run:
  "dispatches i (snd (snd (Run m w))) =
   length (filter (\<lambda>ok. ok) (decisions i (snd (snd (Run m w)))))"
  by (cases "Failures w") (simp_all add: Run_Inl Run_Inr dispatches_run_loop)

lemma dispatches_runs:
  "dispatches i (snd (runs m ws)) = length (filter (\<lambda>ok. ok) (decisions i (snd (runs m ws))))"
proof (induction ws arbitrary: m)
  case Nil
  then show ?case by simp
next
  case (Cons w ws)
  then show ?case
    unfolding runs_Cons by (simp add: dispatches_append decisions_append dispatches_Run)
qed

lemma no_True: "True \<notin> set bs \<Longrightarrow> filter (\<lambda>ok. ok) bs = []"
  by (induction bs) auto

lemma at_most_one_True: "True \<notin> set (tl bs) \<Longrightarrow> length (filter (\<lambda>ok. ok) bs) \<le> 1"
  by (cases bs) (simp_all add: no_True)

subsection \<open>A settled ID is never accepted\<close>

lemma settled_mono: "settled i F t c \<Longrightarrow> t \<le> t' \<Longrightarrow> settled i F t' c"
  by (auto simp: settled_def)

lemma checkFailure_settled:
  assumes "settled i F t c" "t \<le> now" "ID failure = i \<longrightarrow> Finished failure = F"
  shows "settled i F t (snd (checkFailure c failure first now)) \<and>
         (ID failure = i \<longrightarrow> \<not> fst (checkFailure c failure first now))"
proof (cases "ID failure = i")
  case False
  then have "snd (checkFailure c failure first now) i = c i"
    by (simp add: checkFailure_other)
  with assms False show ?thesis by (simp add: settled_def seen_iff)
next
  case True
  show ?thesis
  proof (cases "seen c i")
    case s: True
    with True assms show ?thesis by (simp add: checkFailure_seen)
  next
    case s: False
    with assms have "timeout div 2 < t - F" by (auto simp: settled_def seen_iff)
    with s True assms show ?thesis
      by (auto simp: checkFailure_unseen settled_def seen_iff)
  qed
qed

lemma run_loop_settled:
  assumes "settled i F t c" "\<forall>k. t \<le> check_clock w k"
    "\<forall>failure\<in>set failures. ID failure = i \<longrightarrow> Finished failure = F"
  shows "settled i F t (fst (run_loop m w first c k failures)) \<and>
         True \<notin> set (decisions i (snd (run_loop m w first c k failures)))"
  using assms
proof (induction failures arbitrary: c k)
  case Nil
  then show ?case by simp
next
  case (Cons failure failures)
  let ?r = "checkFailure c failure first (check_clock w k)"
  from Cons.prems have st: "settled i F t (snd ?r)" and rej: "ID failure = i \<longrightarrow> \<not> fst ?r"
    using checkFailure_settled [of i F t c "check_clock w k" failure first] by auto
  from Cons.IH [OF st] Cons.prems
  have ih: "settled i F t (fst (run_loop m w first (snd ?r) (Suc k) failures))"
    "True \<notin> set (decisions i (snd (run_loop m w first (snd ?r) (Suc k) failures)))"
    by auto
  show ?case
    unfolding run_loop_Cons using ih rej
    by (auto simp: decisions_append decisions_dispatch)
qed

lemma run_loop_fresh:
  assumes "c i = None" "timeout div 2 < t" "\<forall>k. t \<le> check_clock w k"
    "\<forall>failure\<in>set failures. ID failure = i \<longrightarrow> Finished failure = F"
  shows "True \<notin> set (tl (decisions i (snd (run_loop m w first c k failures)))) \<and>
         (if decisions i (snd (run_loop m w first c k failures)) = []
          then fst (run_loop m w first c k failures) i = None
          else settled i F t (fst (run_loop m w first c k failures)))"
  using assms
proof (induction failures arbitrary: c k)
  case Nil
  then show ?case by simp
next
  case (Cons failure failures)
  let ?r = "checkFailure c failure first (check_clock w k)"
  show ?case
  proof (cases "ID failure = i")
    case False
    then have "snd ?r i = None"
      using Cons.prems(1) by (simp add: checkFailure_other)
    with Cons.IH [of "snd ?r" "Suc k"] Cons.prems False show ?thesis
      unfolding run_loop_Cons by (simp add: decisions_append decisions_dispatch)
  next
    case True
    with Cons.prems have F: "Finished failure = F" and ns: "\<not> seen c (ID failure)"
      by (simp_all add: seen_iff)
    then have "snd ?r = c(i \<mapsto> F)"
      using True by (simp add: checkFailure_unseen)
    with Cons.prems(2) have "settled i F t (snd ?r)"
      by (simp add: settled_def seen_iff)
    from run_loop_settled [OF this Cons.prems(3), of failures m first "Suc k"] Cons.prems True
    show ?thesis
      unfolding run_loop_Cons by (simp add: decisions_append decisions_dispatch)
  qed
qed

lemma cleanupRecent_settled:
  assumes "settled i F t c" "t \<le> clock i"
  shows "settled i F (clock i) (cleanupRecent c clock)"
  using assms timeout_val
  by (auto simp: settled_def seen_iff cleanupRecent_apply split: option.splits)

lemma cleanupRecent_fresh: "c i = None \<Longrightarrow> cleanupRecent c clock i = None"
  by (simp add: cleanupRecent_apply)

lemma Run_settled:
  assumes "settled_monitor i F t m" "\<forall>k. t \<le> check_clock w k" "t \<le> cleanup_clock w i"
    "\<forall>failure\<in>set (polled w). ID failure = i \<longrightarrow> Finished failure = F"
  shows "settled_monitor i F (cleanup_clock w i) (fst (snd (Run m w))) \<and>
         True \<notin> set (decisions i (snd (snd (Run m w))))"
proof (cases "Failures w")
  case (Inl err)
  with assms show ?thesis
    by (auto simp: Run_Inl settled_monitor_def split: option.splits intro: settled_mono)
next
  case (Inr failures)
  from assms(1) obtain c where c: "recent m = Some c" "settled i F t c"
    by (auto simp: settled_monitor_def split: option.splits)
  from assms(4) Inr have "\<forall>failure\<in>set failures. ID failure = i \<longrightarrow> Finished failure = F"
    by (simp add: polled_def)
  from run_loop_settled [OF c(2) assms(2) this, of m False 0]
  have "settled i F t (fst (run_loop m w False c 0 failures))"
    and no: "True \<notin> set (decisions i (snd (run_loop m w False c 0 failures)))"
    by simp_all
  with cleanupRecent_settled [of i F t "fst (run_loop m w False c 0 failures)" "cleanup_clock w"]
    assms(3) c
  show ?thesis
    by (simp add: Run_Inr [OF Inr] settled_monitor_def)
qed

lemma Run_fresh:
  assumes "fresh i m" "timeout div 2 < t" "\<forall>k. t \<le> check_clock w k" "t \<le> cleanup_clock w i"
    "\<forall>failure\<in>set (polled w). ID failure = i \<longrightarrow> Finished failure = F"
  shows "True \<notin> set (tl (decisions i (snd (snd (Run m w))))) \<and>
         (if decisions i (snd (snd (Run m w))) = []
          then fresh i (fst (snd (Run m w)))
          else settled_monitor i F (cleanup_clock w i) (fst (snd (Run m w))))"
proof (cases "Failures w")
  case (Inl err)
  with assms show ?thesis
    by (auto simp: Run_Inl)
next
  case (Inr failures)
  let ?c = "case recent m of None \<Rightarrow> Map.empty | Some c \<Rightarrow> c"
  let ?l = "run_loop m w (recent m = None) ?c 0 failures"
  from assms(1) have c: "?c i = None"
    by (auto simp: fresh_def split: option.splits)
  from assms(5) Inr have "\<forall>failure\<in>set failures. ID failure = i \<longrightarrow> Finished failure = F"
    by (simp add: polled_def)
  with run_loop_fresh [of ?c i t w failures F m "recent m = None" 0] c assms(2) assms(3)
  have r: "True \<notin> set (tl (decisions i (snd ?l)))"
    "decisions i (snd ?l) = [] \<Longrightarrow> fst ?l i = None"
    "decisions i (snd ?l) \<noteq> [] \<Longrightarrow> settled i F t (fst ?l)"
    by (auto split: if_splits)
  show ?thesis
    using r cleanupRecent_settled [of i F t "fst ?l" "cleanup_clock w"] assms(4)
    by (auto simp: Run_Inr [OF Inr] settled_monitor_def fresh_def cleanupRecent_fresh)
qed

lemma runs_settled:
  assumes "settled_monitor i F t m" "clock_ok t ws"
    "\<forall>w\<in>set ws. \<forall>failure\<in>set (polled w). ID failure = i \<longrightarrow> Finished failure = F"
  shows "True \<notin> set (decisions i (snd (runs m ws)))"
  using assms
proof (induction ws arbitrary: m t)
  case Nil
  then show ?case by simp
next
  case (Cons w ws)
  from Cons.prems have r: "settled_monitor i F (cleanup_clock w i) (fst (snd (Run m w)))"
    "True \<notin> set (decisions i (snd (snd (Run m w))))"
    using Run_settled [of i F t m w] by auto
  from Cons.prems have "clock_ok (cleanup_clock w i) ws" by simp
  from Cons.IH [OF r(1) this] Cons.prems r(2) show ?case
    unfolding runs_Cons by (simp add: decisions_append)
qed

lemma runs_fresh:
  assumes "fresh i m" "timeout div 2 < t" "clock_ok t ws"
    "\<forall>w\<in>set ws. \<forall>failure\<in>set (polled w). ID failure = i \<longrightarrow> Finished failure = F"
  shows "True \<notin> set (tl (decisions i (snd (runs m ws))))"
  using assms
proof (induction ws arbitrary: m t)
  case Nil
  then show ?case by simp
next
  case (Cons w ws)
  let ?m = "fst (snd (Run m w))" and ?evs = "snd (snd (Run m w))"
  from Cons.prems have r: "True \<notin> set (tl (decisions i ?evs))"
    "decisions i ?evs = [] \<Longrightarrow> fresh i ?m"
    "decisions i ?evs \<noteq> [] \<Longrightarrow> settled_monitor i F (cleanup_clock w i) ?m"
    using Run_fresh [of i m t w F] by (auto split: if_splits)
  from Cons.prems have ck: "clock_ok (cleanup_clock w i) ws" "t \<le> cleanup_clock w i" by simp_all
  show ?case
  proof (cases "decisions i ?evs = []")
    case True
    from Cons.prems(2) ck(2) have "timeout div 2 < cleanup_clock w i" by linarith
    from Cons.IH [OF r(2) [OF True] this ck(1)] Cons.prems(4) True show ?thesis
      unfolding runs_Cons by (simp add: decisions_append)
  next
    case False
    from runs_settled [OF r(3) [OF False] ck(1)] Cons.prems(4) r(1) False show ?thesis
      unfolding runs_Cons by (simp add: decisions_append)
  qed
qed

subsection \<open>At most one acceptance for each ID\<close>

text \<open>
  Claim C1. Take the life of a process: a monitor made by \<open>NewMonitor\<close> and any number
  of runs, in which the clock does not run backwards from one run to the next and reads
  more than 30 seconds past the zero time, and in which every polled failure with the ID
  \<open>i\<close> has the same finishing time. Then of all the calls of \<open>checkFailure\<close> on failures
  with the ID \<open>i\<close>, in runs and within the batch of a run, only the first can return
  true: every later one returns false, while the entry is in the map and after it has
  been evicted. So \<open>processFailure\<close> starts at most once for the ID.
\<close>

theorem accepted_at_most_once:
  assumes "clock_ok t ws"
    and "timeout div 2 < t"
    and "\<forall>w\<in>set ws. \<forall>failure\<in>set (polled w). ID failure = i \<longrightarrow> Finished failure = F"
  shows "True \<notin> set (tl (decisions i (snd (runs (NewMonitor nm rs) ws)))) \<and>
         dispatches i (snd (runs (NewMonitor nm rs) ws)) \<le> 1"
proof -
  have "fresh i (NewMonitor nm rs)" by (simp add: fresh_def NewMonitor_def)
  from runs_fresh [OF this assms(2) assms(1) assms(3)]
  show ?thesis using at_most_one_True [of "decisions i (snd (runs (NewMonitor nm rs) ws))"]
    by (simp add: dispatches_runs)
qed

lemma lifetime_decisions:
  "decisions ''task-1'' (snd (runs (NewMonitor ''default'' [(''slack'', ok_reporter)]) lifetime)) =
     [True, False, False, False]"
  by (simp add: lifetime_def world_def task_def NewMonitor_def Run_def checkFailure_def
      seen_def lookup_def IsZero_def Since_def Sub_def maxDuration_def minDuration_def
      cleanupRecent_def timeout_val t2020_val Second_def dispatch_def processFailure_def
      ok_reporter_def decisions_append)

lemma lifetime_dispatches:
  "dispatches ''task-1'' (snd (runs (NewMonitor ''default'' [(''slack'', ok_reporter)]) lifetime)) = 1"
  by (simp add: dispatches_runs lifetime_decisions)

theorem accepted_at_most_once_witness:
  "decisions ''task-1'' (snd (runs (NewMonitor ''default'' [(''slack'', ok_reporter)]) lifetime)) =
     [True, False, False, False] \<and>
   True \<notin> set (tl (decisions ''task-1''
     (snd (runs (NewMonitor ''default'' [(''slack'', ok_reporter)]) lifetime)))) \<and>
   dispatches ''task-1'' (snd (runs (NewMonitor ''default'' [(''slack'', ok_reporter)]) lifetime)) \<le> 1"
proof -
  have clock: "clock_ok t2020 lifetime"
    by (simp add: lifetime_def world_def Second_def)
  have late: "timeout div 2 < t2020"
    by (simp add: half_timeout_val t2020_val)
  have fixed: "\<forall>w\<in>set lifetime. \<forall>failure\<in>set (polled w).
      ID failure = ''task-1'' \<longrightarrow> Finished failure = t2020 + 60 * Second"
    by (simp add: lifetime_def world_def polled_def task_def)
  from accepted_at_most_once [OF clock late fixed, of "''default''" "[(''slack'', ok_reporter)]"]
    lifetime_decisions
  show ?thesis by simp
qed

subsection \<open>What the loop records\<close>

lemma checkFailure_dom_mono: "n \<in> dom c \<Longrightarrow> n \<in> dom (snd (checkFailure c failure first now))"
  by (cases "seen c (ID failure)") (auto simp: checkFailure_seen checkFailure_unseen)

lemma checkFailure_entry:
  "snd (checkFailure c failure first now) n = Some ts \<Longrightarrow>
   c n = Some ts \<or> ID failure = n \<and> Finished failure = ts"
  by (cases "seen c (ID failure)")
    (auto simp: checkFailure_seen checkFailure_unseen split: if_splits)

lemma run_loop_dom_mono: "n \<in> dom c \<Longrightarrow> n \<in> dom (fst (run_loop m w first c k failures))"
proof (induction failures arbitrary: c k)
  case Nil
  then show ?case by simp
next
  case (Cons failure failures)
  then show ?case
    unfolding run_loop_Cons by (simp add: checkFailure_dom_mono)
qed

lemma run_loop_dom:
  "failure \<in> set failures \<Longrightarrow> ID failure \<in> dom (fst (run_loop m w first c k failures))"
proof (induction failures arbitrary: c k)
  case Nil
  then show ?case by simp
next
  case (Cons g failures)
  show ?case
  proof (cases "failure = g")
    case True
    then show ?thesis
      unfolding run_loop_Cons using checkFailure_dom [of g c first "check_clock w k"]
      by (simp add: run_loop_dom_mono)
  next
    case False
    with Cons show ?thesis
      unfolding run_loop_Cons by simp
  qed
qed

lemma run_loop_entry:
  "fst (run_loop m w first c k failures) n = Some ts \<Longrightarrow>
   c n = Some ts \<or> (\<exists>g\<in>set failures. ID g = n \<and> Finished g = ts)"
proof (induction failures arbitrary: c k)
  case Nil
  then show ?case by simp
next
  case (Cons failure failures)
  from Cons.prems
  have "fst (run_loop m w first (snd (checkFailure c failure first (check_clock w k))) (Suc k)
          failures) n = Some ts"
    unfolding run_loop_Cons by simp
  from Cons.IH [OF this] show ?case
    using checkFailure_entry [of c failure first "check_clock w k" n ts] by auto
qed

lemma run_loop_first:
  "snd (run_loop m w True c k failures) = map (\<lambda>failure. CheckFailure failure False) failures"
proof (induction failures arbitrary: c k)
  case Nil
  then show ?case by simp
next
  case (Cons failure failures)
  then show ?case
    unfolding run_loop_Cons by (simp add: checkFailure_first)
qed

subsection \<open>The first run\<close>

text \<open>
  Claim C2, as stated: by the end of the first run the ID of every polled failure is
  in the map. It is not, when the failure finished more than \<open>timeout\<close> before the run:
  the loop records it, and \<open>cleanupRecent\<close> at the end of the same run deletes it.
\<close>

theorem first_run_evicts_counterexample:
  "recent (NewMonitor ''default'' [(''slack'', ok_reporter)]) = None \<and>
   polled (world [task ''task-1'' (t2020 - 120 * Second)] t2020) =
     [task ''task-1'' (t2020 - 120 * Second)] \<and>
   cached (fst (snd (Run (NewMonitor ''default'' [(''slack'', ok_reporter)])
     (world [task ''task-1'' (t2020 - 120 * Second)] t2020)))) ''task-1'' = None"
  by (simp add: NewMonitor_def polled_def world_def task_def cached_def Run_def
      checkFailure_unseen seen_iff cleanupRecent_apply timeout_val half_timeout_val
      t2020_val Second_def)

text \<open>
  Claim C2, amended. On the first run (the one that finds the map nil) no failure is
  accepted: the run returns no error and its trace is one rejecting call of
  \<open>checkFailure\<close> for each polled failure, and nothing else. The loop records the ID of
  every polled failure, with the finishing time of a polled failure of that ID; at the
  end of the run the entry is in the map unless that time is more than \<open>timeout\<close> before
  the reading of the clock at which \<open>cleanupRecent\<close> visits it.
\<close>

theorem first_run_accepts_nothing:
  assumes "recent m = None" and "Failures w = Inr failures"
  shows "\<exists>c. Run m w =
           (None, m\<lparr>recent := Some (cleanupRecent c (cleanup_clock w))\<rparr>,
            map (\<lambda>failure. CheckFailure failure False) failures) \<and>
         (\<forall>failure\<in>set failures. \<exists>g\<in>set failures.
            ID g = ID failure \<and> c (ID failure) = Some (Finished g) \<and>
            cached (fst (snd (Run m w))) (ID failure) =
              (if Finished g + timeout < cleanup_clock w (ID failure) then None
               else Some (Finished g)))"
proof -
  let ?c = "fst (run_loop m w True Map.empty 0 failures)"
  have run: "Run m w =
      (None, m\<lparr>recent := Some (cleanupRecent ?c (cleanup_clock w))\<rparr>,
       map (\<lambda>failure. CheckFailure failure False) failures)"
    using assms by (simp add: Run_Inr run_loop_first)
  have "\<exists>g\<in>set failures. ID g = ID failure \<and> ?c (ID failure) = Some (Finished g) \<and>
          cached (fst (snd (Run m w))) (ID failure) =
            (if Finished g + timeout < cleanup_clock w (ID failure) then None
             else Some (Finished g))"
    if "failure \<in> set failures" for failure
  proof -
    from run_loop_dom [OF that, of m w True Map.empty 0]
    obtain ts where ts: "?c (ID failure) = Some ts" by auto
    from run_loop_entry [OF this]
    obtain g where g: "g \<in> set failures" "ID g = ID failure" "Finished g = ts" by auto
    have "cached (fst (snd (Run m w))) (ID failure) =
        (if ts + timeout < cleanup_clock w (ID failure) then None else Some ts)"
      using ts by (auto simp: run cached_def cleanupRecent_apply)
    with g ts show ?thesis by auto
  qed
  with run show ?thesis by blast
qed

theorem first_run_accepts_nothing_witness:
  "Run (NewMonitor ''default'' [(''slack'', ok_reporter)])
       (world [task ''task-1'' t2020, task ''task-2'' t2020] t2020) =
     (None,
      (NewMonitor ''default'' [(''slack'', ok_reporter)])
        \<lparr>recent := Some (cleanupRecent (Map.empty(''task-1'' \<mapsto> t2020, ''task-2'' \<mapsto> t2020))
           (\<lambda>n. t2020))\<rparr>,
      [CheckFailure (task ''task-1'' t2020) False, CheckFailure (task ''task-2'' t2020) False]) \<and>
   cached (fst (snd (Run (NewMonitor ''default'' [(''slack'', ok_reporter)])
     (world [task ''task-1'' t2020, task ''task-2'' t2020] t2020)))) ''task-1'' = Some t2020 \<and>
   cached (fst (snd (Run (NewMonitor ''default'' [(''slack'', ok_reporter)])
     (world [task ''task-1'' t2020, task ''task-2'' t2020] t2020)))) ''task-2'' = Some t2020"
  using first_run_accepts_nothing
    [of "NewMonitor ''default'' [(''slack'', ok_reporter)]"
        "world [task ''task-1'' t2020, task ''task-2'' t2020] t2020"
        "[task ''task-1'' t2020, task ''task-2'' t2020]"]
  by (simp add: NewMonitor_def world_def task_def cached_def Run_def
      checkFailure_unseen seen_iff cleanupRecent_apply timeout_val half_timeout_val
      t2020_val)

subsection \<open>What the reporters and the logs cannot change\<close>

lemma report_calls_report_instances:
  "report_calls (report_instances ls n r failure out err is) = map (Pair n) is"
  by (induction "is") (auto simp: report_calls_append split: option.splits)

lemma report_calls_report_all:
  "report_calls (report_all w ls failure out err rs) =
   concat (map (\<lambda>(n, r). map (Pair n) (Instances w ls n)) rs)"
  by (induction rs) (auto simp: report_calls_append report_calls_report_instances)

lemma quiet_report_instances:
  "quiet (report_instances ls n r failure out err is) =
   map (\<lambda>i. CallReport n i failure out err) is"
  by (induction "is") (auto simp: quiet_append split: option.splits)

lemma quiet_report_all:
  "quiet (report_all w ls failure out err rs) =
   concat (map (\<lambda>n. map (\<lambda>i. CallReport n i failure out err) (Instances w ls n)) (map fst rs))"
  by (induction rs) (auto simp: quiet_append quiet_report_instances)

lemma report_instances_logged:
  "i \<in> set is \<Longrightarrow> r failure (ls, n, i) out err = Some e \<Longrightarrow>
   LogCannotReport n i (ID failure) e \<in> set (report_instances ls n r failure out err is)"
  by (induction "is") auto

lemma report_all_logged:
  "(n, r) \<in> set rs \<Longrightarrow> i \<in> set (Instances w ls n) \<Longrightarrow>
   r failure (ls, n, i) out err = Some e \<Longrightarrow>
   LogCannotReport n i (ID failure) e \<in> set (report_all w ls failure out err rs)"
  by (induction rs) (auto simp: report_instances_logged)

lemma processFailure_ok:
  "Logs w failure = Inr (o1, e1) \<Longrightarrow> Upload w failure o1 e1 = Inr (o2, e2) \<Longrightarrow>
   processFailure m w failure =
     (None,
      [LogReporting failure, CallLogs failure, CallUpload failure o1 e1] @
      report_all w (name m, Labels failure) failure o2 e2 (reporters m))"
  by (simp add: processFailure_def)

lemma processFailure_error_iff:
  "fst (processFailure m w failure) \<noteq> None \<longleftrightarrow>
   (\<exists>err. Logs w failure = Inl err) \<or>
   (\<exists>o1 e1 err. Logs w failure = Inr (o1, e1) \<and> Upload w failure o1 e1 = Inl err)"
  by (auto simp: processFailure_def split: sum.splits prod.splits)

lemma processFailure_error_calls:
  "fst (processFailure m w failure) \<noteq> None \<Longrightarrow>
   report_calls (snd (processFailure m w failure)) = []"
  by (auto simp: processFailure_def split: sum.splits prod.splits)

lemma processFailure_reporters:
  assumes "map fst rs = map fst (reporters m)"
  shows "fst (processFailure (m\<lparr>reporters := rs\<rparr>) w failure) = fst (processFailure m w failure) \<and>
         quiet (snd (processFailure (m\<lparr>reporters := rs\<rparr>) w failure)) =
           quiet (snd (processFailure m w failure))"
  using assms
  by (auto simp: processFailure_def quiet_append quiet_report_all split: sum.splits prod.splits)

lemma dispatch_reporters:
  assumes "map fst rs = map fst (reporters m)"
  shows "quiet (dispatch (m\<lparr>reporters := rs\<rparr>) w failure) = quiet (dispatch m w failure)"
proof -
  obtain e evs where a: "processFailure m w failure = (e, evs)"
    by (cases "processFailure m w failure")
  obtain e' evs' where b: "processFailure (m\<lparr>reporters := rs\<rparr>) w failure = (e', evs')"
    by (cases "processFailure (m\<lparr>reporters := rs\<rparr>) w failure")
  from processFailure_reporters [OF assms, of w failure] a b
  have "e' = e" "quiet evs' = quiet evs" by simp_all
  with a b show ?thesis
    by (simp add: dispatch_def quiet_append split: option.splits)
qed

lemma run_loop_cache:
  assumes "check_clock w' = check_clock w"
  shows "fst (run_loop m' w' first c k failures) = fst (run_loop m w first c k failures) \<and>
         decisions i (snd (run_loop m' w' first c k failures)) =
           decisions i (snd (run_loop m w first c k failures))"
proof (induction failures arbitrary: c k)
  case Nil
  show ?case by simp
next
  case (Cons failure failures)
  then show ?case
    unfolding run_loop_Cons using assms by (simp add: decisions_append decisions_dispatch)
qed

lemma run_loop_reporters:
  assumes "map fst rs = map fst (reporters m)"
  shows "quiet (snd (run_loop (m\<lparr>reporters := rs\<rparr>) w first c k failures)) =
         quiet (snd (run_loop m w first c k failures))"
proof (induction failures arbitrary: c k)
  case Nil
  show ?case by simp
next
  case (Cons failure failures)
  have "fst (run_loop (m\<lparr>reporters := rs\<rparr>) w first c' k' failures) =
        fst (run_loop m w first c' k' failures)" for c' k'
    using run_loop_cache [of w w] by simp
  with Cons show ?case
    unfolding run_loop_Cons by (simp add: quiet_append dispatch_reporters [OF assms])
qed

subsection \<open>What a run does for the failures it accepts\<close>

lemma checked_append: "checked (xs @ ys) = checked xs @ checked ys"
  by (induction xs rule: checked.induct) auto

lemma accepted_append: "accepted (xs @ ys) = accepted xs @ accepted ys"
  by (induction xs rule: accepted.induct) auto

lemma checked_report_instances:
  "checked (report_instances ls n r failure out err is) = []"
  by (induction "is") (auto simp: checked_append split: option.splits)

lemma checked_report_all: "checked (report_all w ls failure out err rs) = []"
  by (induction rs) (auto simp: checked_append checked_report_instances)

lemma checked_dispatch: "checked (dispatch m w failure) = []"
  by (auto simp: dispatch_def processFailure_def checked_append checked_report_all
      split: sum.splits prod.splits option.splits)

lemma accepted_report_instances:
  "accepted (report_instances ls n r failure out err is) = []"
  by (induction "is") (auto simp: accepted_append split: option.splits)

lemma accepted_report_all: "accepted (report_all w ls failure out err rs) = []"
  by (induction rs) (auto simp: accepted_append accepted_report_instances)

lemma accepted_dispatch: "accepted (dispatch m w failure) = []"
  by (auto simp: dispatch_def processFailure_def accepted_append accepted_report_all
      split: sum.splits prod.splits option.splits)

lemma CheckFailure_checked: "CheckFailure failure ok \<in> set evs \<Longrightarrow> failure \<in> set (checked evs)"
  by (induction evs rule: checked.induct) auto

lemma report_calls_dispatch:
  "report_calls (dispatch m w failure) = report_calls (snd (processFailure m w failure))"
  by (auto simp: dispatch_def report_calls_append split: prod.splits option.splits)

lemma set_processFailure_dispatch:
  "set (snd (processFailure m w failure)) \<subseteq> set (dispatch m w failure)"
proof (cases "processFailure m w failure")
  case (Pair e evs)
  then show ?thesis by (cases e) (auto simp: dispatch_def)
qed

lemma report_instances_called:
  "i \<in> set is \<Longrightarrow>
   CallReport n i failure out err \<in> set (report_instances ls n r failure out err is)"
  by (induction "is") auto

lemma report_all_called:
  "(n, r) \<in> set rs \<Longrightarrow> i \<in> set (Instances w ls n) \<Longrightarrow>
   CallReport n i failure out err \<in> set (report_all w ls failure out err rs)"
  by (induction rs) (auto simp: report_instances_called)

lemma run_loop_checked: "checked (snd (run_loop m w first c k failures)) = failures"
proof (induction failures arbitrary: c k)
  case Nil
  show ?case by simp
next
  case (Cons failure failures)
  then show ?case
    unfolding run_loop_Cons by (simp add: checked_append checked_dispatch)
qed

lemma run_loop_report_calls:
  "report_calls (snd (run_loop m w first c k failures)) =
   concat (map (\<lambda>failure. report_calls (snd (processFailure m w failure)))
     (accepted (snd (run_loop m w first c k failures))))"
proof (induction failures arbitrary: c k)
  case Nil
  show ?case by simp
next
  case (Cons failure failures)
  then show ?case
    unfolding run_loop_Cons
    by (simp add: report_calls_append accepted_append accepted_dispatch report_calls_dispatch)
qed

lemma run_loop_dispatched:
  "CheckFailure failure True \<in> set (snd (run_loop m w first c k failures)) \<Longrightarrow>
   set (dispatch m w failure) \<subseteq> set (snd (run_loop m w first c k failures))"
proof (induction failures arbitrary: c k)
  case Nil
  then show ?case by simp
next
  case (Cons g failures)
  let ?r = "checkFailure c g first (check_clock w k)"
  let ?rest = "snd (run_loop m w first (snd ?r) (Suc k) failures)"
  from Cons.prems
  consider "g = failure" "fst ?r"
    | "CheckFailure failure True \<in> set (dispatch m w g)"
    | "CheckFailure failure True \<in> set ?rest"
    unfolding run_loop_Cons by (auto split: if_splits)
  then show ?case
  proof cases
    case 1
    then show ?thesis unfolding run_loop_Cons by auto
  next
    case 2
    from CheckFailure_checked [OF this] show ?thesis by (simp add: checked_dispatch)
  next
    case 3
    from Cons.IH [OF this] show ?thesis unfolding run_loop_Cons by auto
  qed
qed

subsection \<open>A failed report\<close>

text \<open>
  Claim C7. An error of a \<open>Report\<close> call is logged and goes no further. When the logs
  of a failure are found and uploaded, \<open>processFailure\<close> returns no error whatever the
  reporters return, it calls \<open>Report\<close> for every reporter and every instance of it, in
  the order of the range, and the log has a line for every call that failed. For the
  run: it returns no error; it checks every polled failure, in the order of the poll;
  for every failure it accepts, all the events of \<open>processFailure\<close> are in its trace, so
  with the logs found and uploaded \<open>Report\<close> is called for every reporter and every
  instance, after a call that failed as well, and every failed call has its line in the
  log; the \<open>Report\<close> calls of the run are those of \<open>processFailure\<close> for the accepted
  failures, one after the other. The run ends with \<open>cleanupRecent\<close> on the map the loop
  left: no entry it leaves is older than \<open>timeout\<close>. And with any other reporters under
  the same names (say, reporters that never fail) the map at the end is the same and so
  is the trace, but for the lines about failed reports.
\<close>

theorem report_error_swallowed:
  assumes "Failures w = Inr failures" and "map fst rs = map fst (reporters m)"
  shows "fst (Run m w) = None \<and>
         checked (snd (snd (Run m w))) = failures \<and>
         report_calls (snd (snd (Run m w))) =
           concat (map (\<lambda>failure. report_calls (snd (processFailure m w failure)))
             (accepted (snd (snd (Run m w))))) \<and>
         (CheckFailure failure True \<in> set (snd (snd (Run m w))) \<longrightarrow>
            set (snd (processFailure m w failure)) \<subseteq> set (snd (snd (Run m w)))) \<and>
         recent (fst (snd (Run m w))) =
           Some (cleanupRecent
             (fst (run_loop m w (recent m = None)
                (case recent m of None \<Rightarrow> Map.empty | Some c \<Rightarrow> c) 0 failures))
             (cleanup_clock w)) \<and>
         (cached (fst (snd (Run m w))) x = Some ts \<longrightarrow> cleanup_clock w x \<le> ts + timeout) \<and>
         recent (fst (snd (Run (m\<lparr>reporters := rs\<rparr>) w))) = recent (fst (snd (Run m w))) \<and>
         quiet (snd (snd (Run (m\<lparr>reporters := rs\<rparr>) w))) = quiet (snd (snd (Run m w))) \<and>
         (Logs w failure = Inr (o1, e1) \<longrightarrow> Upload w failure o1 e1 = Inr (o2, e2) \<longrightarrow>
            fst (processFailure m w failure) = None \<and>
            report_calls (snd (processFailure m w failure)) =
              concat (map (\<lambda>(n, r). map (Pair n) (Instances w (name m, Labels failure) n))
                (reporters m)) \<and>
            ((n, r) \<in> set (reporters m) \<longrightarrow>
             i \<in> set (Instances w (name m, Labels failure) n) \<longrightarrow>
             r failure ((name m, Labels failure), n, i) o2 e2 = Some err \<longrightarrow>
             LogCannotReport n i (ID failure) err \<in> set (snd (processFailure m w failure))) \<and>
            (CheckFailure failure True \<in> set (snd (snd (Run m w))) \<longrightarrow>
             (n, r) \<in> set (reporters m) \<longrightarrow>
             i \<in> set (Instances w (name m, Labels failure) n) \<longrightarrow>
             CallReport n i failure o2 e2 \<in> set (snd (snd (Run m w))) \<and>
             (r failure ((name m, Labels failure), n, i) o2 e2 = Some err \<longrightarrow>
              LogCannotReport n i (ID failure) err \<in> set (snd (snd (Run m w))))))"
proof -
  let ?c = "case recent m of None \<Rightarrow> Map.empty | Some c \<Rightarrow> c"
  let ?l = "run_loop m w (recent m = None) ?c 0 failures"
  have trace: "snd (snd (Run m w)) = snd ?l"
    using assms(1) by (simp add: Run_Inr)
  have cache: "fst (run_loop (m\<lparr>reporters := rs\<rparr>) w (recent m = None) ?c 0 failures) = fst ?l"
    using run_loop_cache [of w w] by simp
  have run: "fst (Run m w) = None"
    "recent (fst (snd (Run m w))) = Some (cleanupRecent (fst ?l) (cleanup_clock w))"
    using assms(1) by (simp_all add: Run_Inr)
  have all_checked: "checked (snd (snd (Run m w))) = failures"
    unfolding trace by (rule run_loop_checked)
  have calls: "report_calls (snd (snd (Run m w))) =
      concat (map (\<lambda>failure. report_calls (snd (processFailure m w failure)))
        (accepted (snd (snd (Run m w)))))"
    unfolding trace by (rule run_loop_report_calls)
  have dispatched: "set (snd (processFailure m w failure)) \<subseteq> set (snd (snd (Run m w)))"
    if "CheckFailure failure True \<in> set (snd (snd (Run m w)))"
    using run_loop_dispatched [of failure m w "recent m = None" ?c 0 failures] that
      set_processFailure_dispatch [of m w failure]
    unfolding trace by blast
  have evicted: "cleanup_clock w x \<le> ts + timeout"
    if "cached (fst (snd (Run m w))) x = Some ts"
    using that by (auto simp: cached_def run(2) cleanupRecent_apply split: option.splits if_splits)
  have same: "recent (fst (snd (Run (m\<lparr>reporters := rs\<rparr>) w))) = recent (fst (snd (Run m w)))"
    "quiet (snd (snd (Run (m\<lparr>reporters := rs\<rparr>) w))) = quiet (snd (snd (Run m w)))"
    using assms(1) cache by (simp_all add: Run_Inr run_loop_reporters [OF assms(2)])
  have one: "fst (processFailure m w failure) = None \<and>
      report_calls (snd (processFailure m w failure)) =
        concat (map (\<lambda>(n, r). map (Pair n) (Instances w (name m, Labels failure) n))
          (reporters m)) \<and>
      ((n, r) \<in> set (reporters m) \<longrightarrow>
       i \<in> set (Instances w (name m, Labels failure) n) \<longrightarrow>
       r failure ((name m, Labels failure), n, i) o2 e2 = Some err \<longrightarrow>
       LogCannotReport n i (ID failure) err \<in> set (snd (processFailure m w failure))) \<and>
      (CheckFailure failure True \<in> set (snd (snd (Run m w))) \<longrightarrow>
       (n, r) \<in> set (reporters m) \<longrightarrow>
       i \<in> set (Instances w (name m, Labels failure) n) \<longrightarrow>
       CallReport n i failure o2 e2 \<in> set (snd (snd (Run m w))) \<and>
       (r failure ((name m, Labels failure), n, i) o2 e2 = Some err \<longrightarrow>
        LogCannotReport n i (ID failure) err \<in> set (snd (snd (Run m w)))))"
    if ok: "Logs w failure = Inr (o1, e1)" "Upload w failure o1 e1 = Inr (o2, e2)"
  proof -
    note p = processFailure_ok [OF ok, of m]
    have a: "fst (processFailure m w failure) = None"
      "report_calls (snd (processFailure m w failure)) =
        concat (map (\<lambda>(n, r). map (Pair n) (Instances w (name m, Labels failure) n))
          (reporters m))"
      by (simp_all add: p report_calls_report_all)
    have b: "LogCannotReport n i (ID failure) err \<in> set (snd (processFailure m w failure))"
      if "(n, r) \<in> set (reporters m)" "i \<in> set (Instances w (name m, Labels failure) n)"
        "r failure ((name m, Labels failure), n, i) o2 e2 = Some err"
      using that by (simp add: p report_all_logged)
    have c: "CallReport n i failure o2 e2 \<in> set (snd (processFailure m w failure))"
      if "(n, r) \<in> set (reporters m)" "i \<in> set (Instances w (name m, Labels failure) n)"
      using that by (simp add: p report_all_called)
    from a b c dispatched show ?thesis by blast
  qed
  from run all_checked calls dispatched evicted same one show ?thesis by blast
qed

theorem report_error_swallowed_witness:
  "fst (Run seasoned (world three_tasks (t2020 + 61 * Second))) = None \<and>
   checked (snd (snd (Run seasoned (world three_tasks (t2020 + 61 * Second))))) = three_tasks \<and>
   accepted (snd (snd (Run seasoned (world three_tasks (t2020 + 61 * Second))))) = three_tasks \<and>
   report_calls (snd (snd (Run seasoned (world three_tasks (t2020 + 61 * Second))))) =
     [(''slack'', ''team-a''), (''pagerduty'', ''team-a''),
      (''slack'', ''team-a''), (''pagerduty'', ''team-a'')] \<and>
   LogCannotReport ''slack'' ''team-a'' ''task-1'' ''connection refused''
     \<in> set (snd (snd (Run seasoned (world three_tasks (t2020 + 61 * Second))))) \<and>
   CallReport ''pagerduty'' ''team-a'' (task ''task-1'' (t2020 + 60 * Second))
       ''s3/stdout'' ''s3/stderr''
     \<in> set (snd (snd (Run seasoned (world three_tasks (t2020 + 61 * Second))))) \<and>
   CallReport ''slack'' ''team-a'' (task ''task-2'' (t2020 + 60 * Second))
       ''s3/stdout'' ''s3/stderr''
     \<in> set (snd (snd (Run seasoned (world three_tasks (t2020 + 61 * Second))))) \<and>
   quiet (snd (snd (Run
       (seasoned\<lparr>reporters :=
          [(''slack'', ok_reporter), (''email'', ok_reporter), (''pagerduty'', ok_reporter)]\<rparr>)
       (world three_tasks (t2020 + 61 * Second))))) =
     quiet (snd (snd (Run seasoned (world three_tasks (t2020 + 61 * Second))))) \<and>
   cached seasoned ''task-0'' = Some t2020 \<and>
   cached (fst (snd (Run seasoned (world three_tasks (t2020 + 61 * Second))))) ''task-0'' = None \<and>
   cached (fst (snd (Run seasoned (world three_tasks (t2020 + 61 * Second))))) ''task-1'' =
     Some (t2020 + 60 * Second)"
proof -
  let ?w = "world three_tasks (t2020 + 61 * Second)"
  let ?T = "t2020 + 60 * Second"
  have poll: "Failures ?w = Inr three_tasks"
    by (simp add: world_def)
  have m: "name seasoned = ''default''"
    "reporters seasoned =
       [(''slack'', bad_reporter), (''email'', ok_reporter), (''pagerduty'', ok_reporter)]"
    "recent seasoned = Some (cleanupRecent (Map.empty(''task-0'' \<mapsto> t2020)) (\<lambda>n. t2020))"
    by (simp_all add: seasoned_def NewMonitor_def Run_def world_def task_def
        checkFailure_unseen seen_iff)
  have names: "map fst [(''slack'', ok_reporter), (''email'', ok_reporter), (''pagerduty'', ok_reporter)] =
      map fst (reporters seasoned)"
    by (simp add: m)
  have logs: "Logs ?w (task ''task-1'' ?T) = Inr (''stdout'', ''stderr'')"
    by (simp add: world_def task_def)
  have upload: "Upload ?w (task ''task-1'' ?T) ''stdout'' ''stderr'' =
      Inr (''s3/stdout'', ''s3/stderr'')"
    by (simp add: world_def)
  have run: "snd (snd (Run seasoned ?w)) =
      [CheckFailure (task ''task-1'' ?T) True,
       LogReporting (task ''task-1'' ?T), CallLogs (task ''task-1'' ?T),
       CallUpload (task ''task-1'' ?T) ''stdout'' ''stderr'',
       CallReport ''slack'' ''team-a'' (task ''task-1'' ?T) ''s3/stdout'' ''s3/stderr'',
       LogCannotReport ''slack'' ''team-a'' ''task-1'' ''connection refused'',
       CallReport ''pagerduty'' ''team-a'' (task ''task-1'' ?T) ''s3/stdout'' ''s3/stderr'',
       CheckFailure (task ''task-3'' ?T) True,
       LogReporting (task ''task-3'' ?T), CallLogs (task ''task-3'' ?T),
       LogErrorReporting ''task-3'' ''cannot get stdout and stderr urls from mesos: not found'',
       CheckFailure (task ''task-2'' ?T) True,
       LogReporting (task ''task-2'' ?T), CallLogs (task ''task-2'' ?T),
       CallUpload (task ''task-2'' ?T) ''stdout'' ''stderr'',
       CallReport ''slack'' ''team-a'' (task ''task-2'' ?T) ''s3/stdout'' ''s3/stderr'',
       LogCannotReport ''slack'' ''team-a'' ''task-2'' ''connection refused'',
       CallReport ''pagerduty'' ''team-a'' (task ''task-2'' ?T) ''s3/stdout'' ''s3/stderr'']"
    unfolding Run_Inr [OF poll]
    by (simp add: m three_tasks_def task_def world_def dispatch_def processFailure_def
        checkFailure_unseen checkFailure_seen seen_iff cleanupRecent_apply half_timeout_val
        timeout_val t2020_val Second_def bad_reporter_def ok_reporter_def)
  have before: "cached seasoned ''task-0'' = Some t2020"
    by (simp add: cached_def m cleanupRecent_apply timeout_val)
  have after: "cached (fst (snd (Run seasoned ?w))) ''task-0'' = None"
    "cached (fst (snd (Run seasoned ?w))) ''task-1'' = Some ?T"
    unfolding Run_Inr [OF poll]
    by (simp_all add: m cached_def three_tasks_def task_def world_def
        checkFailure_unseen checkFailure_seen seen_iff cleanupRecent_apply half_timeout_val
        timeout_val t2020_val Second_def)
  from report_error_swallowed [OF poll names,
      where failure = "task ''task-1'' ?T" and ?o1.0 = "''stdout''" and ?e1.0 = "''stderr''"
        and ?o2.0 = "''s3/stdout''" and ?e2.0 = "''s3/stderr''" and n = "''slack''"
        and r = bad_reporter and i = "''team-a''" and err = "''connection refused''"
        and x = "''task-1''" and ts = ?T]
    logs upload run before after
  show ?thesis
    by (simp add: three_tasks_def task_def)
qed

subsection \<open>A failed dispatch\<close>

text \<open>
  Claim C8. \<open>processFailure\<close> returns an error exactly when the cluster cannot give the
  log URLs of the failure or the uploader fails on them, and then it has called no
  reporter. The error stays within the iteration of the loop: the iteration logs it
  and the loop goes on with the other failures, from the map in which \<open>checkFailure\<close>
  recorded the failure that was accepted. The run returns no error; the map it leaves
  and the results of its calls of \<open>checkFailure\<close> are the same whatever the cluster
  and the uploader answer for the logs, so the failure is recorded, and not tried
  again, as if its dispatch had succeeded.
\<close>

theorem dispatch_error_contained:
  "(fst (processFailure m w failure) \<noteq> None \<longleftrightarrow>
      (\<exists>err. Logs w failure = Inl err) \<or>
      (\<exists>o1 e1 err. Logs w failure = Inr (o1, e1) \<and> Upload w failure o1 e1 = Inl err)) \<and>
   (fst (processFailure m w failure) \<noteq> None \<longrightarrow>
      report_calls (snd (processFailure m w failure)) = []) \<and>
   (checkFailure c failure first (check_clock w k) = (True, c') \<longrightarrow>
    processFailure m w failure = (Some err, evs) \<longrightarrow>
      c' (ID failure) = Some (Finished failure) \<and>
      run_loop m w first c k (failure # rest) =
        (fst (run_loop m w first c' (Suc k) rest),
         CheckFailure failure True # evs @
         LogErrorReporting (ID failure) err # snd (run_loop m w first c' (Suc k) rest))) \<and>
   (Failures w = Inr failures \<longrightarrow>
      fst (Run m w) = None \<and>
      recent (fst (snd (Run m (w\<lparr>Logs := l, Upload := u\<rparr>)))) = recent (fst (snd (Run m w))) \<and>
      decisions i (snd (snd (Run m (w\<lparr>Logs := l, Upload := u\<rparr>)))) =
        decisions i (snd (snd (Run m w))))"
proof (intro conjI impI)
  show "fst (processFailure m w failure) \<noteq> None \<longleftrightarrow>
      (\<exists>err. Logs w failure = Inl err) \<or>
      (\<exists>o1 e1 err. Logs w failure = Inr (o1, e1) \<and> Upload w failure o1 e1 = Inl err)"
    by (rule processFailure_error_iff)
next
  assume "fst (processFailure m w failure) \<noteq> None"
  then show "report_calls (snd (processFailure m w failure)) = []"
    by (rule processFailure_error_calls)
next
  assume a: "checkFailure c failure first (check_clock w k) = (True, c')"
    and p: "processFailure m w failure = (Some err, evs)"
  from a have "\<not> seen c (ID failure)" by (auto simp: checkFailure_seen)
  with a show "c' (ID failure) = Some (Finished failure)"
    by (auto simp: checkFailure_unseen)
  from a p show "run_loop m w first c k (failure # rest) =
        (fst (run_loop m w first c' (Suc k) rest),
         CheckFailure failure True # evs @
         LogErrorReporting (ID failure) err # snd (run_loop m w first c' (Suc k) rest))"
    by (simp add: dispatch_def split: prod.splits)
next
  assume poll: "Failures w = Inr failures"
  then show "fst (Run m w) = None" by (simp add: Run_Inr)
  have "Failures (w\<lparr>Logs := l, Upload := u\<rparr>) = Inr failures"
    "check_clock (w\<lparr>Logs := l, Upload := u\<rparr>) = check_clock w"
    "cleanup_clock (w\<lparr>Logs := l, Upload := u\<rparr>) = cleanup_clock w"
    using poll by simp_all
  with poll run_loop_cache [of "w\<lparr>Logs := l, Upload := u\<rparr>" w m _ _ _ failures m i]
  show "recent (fst (snd (Run m (w\<lparr>Logs := l, Upload := u\<rparr>)))) = recent (fst (snd (Run m w)))"
    "decisions i (snd (snd (Run m (w\<lparr>Logs := l, Upload := u\<rparr>)))) =
       decisions i (snd (snd (Run m w)))"
    by (simp_all add: Run_Inr)
qed

theorem dispatch_error_contained_witness:
  "fst (processFailure started (world three_tasks (t2020 + 60 * Second))
       (task ''task-3'' (t2020 + 60 * Second))) =
     Some ''cannot get stdout and stderr urls from mesos: not found'' \<and>
   report_calls (snd (processFailure started (world three_tasks (t2020 + 60 * Second))
       (task ''task-3'' (t2020 + 60 * Second)))) = [] \<and>
   fst (Run started (world three_tasks (t2020 + 60 * Second))) = None \<and>
   report_calls (snd (snd (Run started (world three_tasks (t2020 + 60 * Second))))) =
     [(''slack'', ''team-a''), (''pagerduty'', ''team-a''),
      (''slack'', ''team-a''), (''pagerduty'', ''team-a'')] \<and>
   LogErrorReporting ''task-3'' ''cannot get stdout and stderr urls from mesos: not found''
     \<in> set (snd (snd (Run started (world three_tasks (t2020 + 60 * Second))))) \<and>
   decisions ''task-3'' (snd (snd (Run started (world three_tasks (t2020 + 60 * Second))))) =
     [True] \<and>
   decisions ''task-2'' (snd (snd (Run started (world three_tasks (t2020 + 60 * Second))))) =
     [True] \<and>
   cached (fst (snd (Run started (world three_tasks (t2020 + 60 * Second))))) ''task-3'' =
     Some (t2020 + 60 * Second)"
proof -
  let ?w = "world three_tasks (t2020 + 60 * Second)"
  let ?T = "t2020 + 60 * Second"
  let ?c = "(cleanupRecent Map.empty (\<lambda>n. t2020))(''task-1'' \<mapsto> ?T)"
  let ?msg = "''cannot get stdout and stderr urls from mesos: not found''"
  have poll: "Failures ?w = Inr three_tasks"
    by (simp add: world_def)
  have m: "name started = ''default''"
    "reporters started =
       [(''slack'', bad_reporter), (''email'', ok_reporter), (''pagerduty'', ok_reporter)]"
    "recent started = Some (cleanupRecent Map.empty (\<lambda>n. t2020))"
    by (simp_all add: started_def NewMonitor_def Run_def world_def)
  have failed: "processFailure started ?w (task ''task-3'' ?T) =
      (Some ?msg, [LogReporting (task ''task-3'' ?T), CallLogs (task ''task-3'' ?T)])"
    by (simp add: processFailure_def world_def task_def)
  have accepted: "checkFailure ?c (task ''task-3'' ?T) False (check_clock ?w 1) =
      (True, ?c(''task-3'' \<mapsto> ?T))"
    by (simp add: checkFailure_unseen seen_iff cleanupRecent_apply world_def task_def
        half_timeout_val)
  have run: "snd (snd (Run started ?w)) =
      [CheckFailure (task ''task-1'' ?T) True,
       LogReporting (task ''task-1'' ?T), CallLogs (task ''task-1'' ?T),
       CallUpload (task ''task-1'' ?T) ''stdout'' ''stderr'',
       CallReport ''slack'' ''team-a'' (task ''task-1'' ?T) ''s3/stdout'' ''s3/stderr'',
       LogCannotReport ''slack'' ''team-a'' ''task-1'' ''connection refused'',
       CallReport ''pagerduty'' ''team-a'' (task ''task-1'' ?T) ''s3/stdout'' ''s3/stderr'',
       CheckFailure (task ''task-3'' ?T) True,
       LogReporting (task ''task-3'' ?T), CallLogs (task ''task-3'' ?T),
       LogErrorReporting ''task-3'' ?msg,
       CheckFailure (task ''task-2'' ?T) True,
       LogReporting (task ''task-2'' ?T), CallLogs (task ''task-2'' ?T),
       CallUpload (task ''task-2'' ?T) ''stdout'' ''stderr'',
       CallReport ''slack'' ''team-a'' (task ''task-2'' ?T) ''s3/stdout'' ''s3/stderr'',
       LogCannotReport ''slack'' ''team-a'' ''task-2'' ''connection refused'',
       CallReport ''pagerduty'' ''team-a'' (task ''task-2'' ?T) ''s3/stdout'' ''s3/stderr'']"
    unfolding Run_Inr [OF poll]
    by (simp add: m three_tasks_def task_def world_def dispatch_def processFailure_def
        checkFailure_unseen checkFailure_seen seen_iff cleanupRecent_apply half_timeout_val
        bad_reporter_def ok_reporter_def)
  have cache: "cached (fst (snd (Run started ?w))) ''task-3'' = Some ?T"
    unfolding Run_Inr [OF poll]
    by (simp add: m cached_def three_tasks_def task_def world_def
        checkFailure_unseen checkFailure_seen seen_iff cleanupRecent_apply half_timeout_val
        timeout_val)
  from dispatch_error_contained
    [where m = started and w = ?w and failure = "task ''task-3'' ?T" and c = ?c
       and first = False and k = 1 and c' = "?c(''task-3'' \<mapsto> ?T)" and err = ?msg
       and evs = "[LogReporting (task ''task-3'' ?T), CallLogs (task ''task-3'' ?T)]"
       and rest = "[task ''task-2'' ?T]" and failures = three_tasks
       and l = "Logs ?w" and u = "Upload ?w" and i = "''task-3''"]
    poll failed accepted run cache
  show ?thesis
    by (simp add: task_def)
qed

end
